theory Spec2Isabelle
  imports Complex_Main "HOL-Library.Log_Nat"
begin

section \<open>Audio book player: timed sound segments and the page-pointer arrow\<close>

text \<open>
  A shallow embedding of \<^verbatim>\<open>SoundObject.py\<close> and of the \<^verbatim>\<open>Arrow\<close> class and
  \<^verbatim>\<open>load_image\<close> of \<^verbatim>\<open>P3.py\<close>.

  Numbers. Screen coordinates, the line count, start times and durations are Python
  \<^verbatim>\<open>int\<close>s (that is what \<^verbatim>\<open>main\<close> passes, and what \<^verbatim>\<open>round\<close> returns), modelled
  as \<^typ>\<open>int\<close>. The results of Python's true division \<^verbatim>\<open>/\<close> and of arithmetic on
  them are Python \<^verbatim>\<open>float\<close>s, that is IEEE 754 binary64 numbers. A finite one is
  modelled by the rational number it denotes; every operation computes the exact
  result and rounds it to the nearest binary64 number, a tie going to the even
  significand. The sign of a zero is not modelled: no operation here reads it.
\<close>

subsection \<open>Python numbers\<close>

datatype py_error = SystemExit string | ZeroDivisionError | OverflowError

text \<open>The nearest integer, a tie going to the even neighbour.\<close>

definition round_half_even :: "rat \<Rightarrow> int" where
  "round_half_even q =
     (let f = \<lfloor>q\<rfloor>; d = q - of_int f in
      if d < 1 / 2 then f
      else if 1 / 2 < d then f + 1
      else if even f then f else f + 1)"

text \<open>
  For \<open>q \<noteq> 0\<close>, the exponent \<open>e\<close> with \<open>2\<^sup>e \<le> \<bar>q\<bar> < 2\<^sup>e\<^sup>+\<^sup>1\<close>. Numerator and
  denominator give it up to one, and a comparison decides.
\<close>

definition binary_exponent :: "rat \<Rightarrow> int" where
  "binary_exponent q =
     (case quotient_of \<bar>q\<bar> of (a, b) \<Rightarrow>
        (let e0 = bitlen a - bitlen b in if 2 powi e0 \<le> \<bar>q\<bar> then e0 else e0 - 1))"

text \<open>
  Rounding to binary64 with the exponent unbounded above: 53 significant bits, and
  below the exponent \<open>-1022\<close> the fixed spacing \<open>2\<^sup>-\<^sup>1\<^sup>0\<^sup>7\<^sup>4\<close> of the subnormal numbers.
\<close>

definition nearest_double :: "rat \<Rightarrow> rat" where
  "nearest_double q =
     (if q = 0 then 0
      else (let ulp = 2 powi (max (binary_exponent q) (- 1022) - 52)
            in of_int (round_half_even (q / ulp)) * ulp))"

text \<open>The rounded result is beyond the largest binary64 number.\<close>

definition overflows :: "rat \<Rightarrow> bool" where
  "overflows q \<longleftrightarrow> 2 ^ 1024 \<le> \<bar>nearest_double q\<bar>"

datatype pyfloat = Finite rat | PosInf | NegInf

datatype number = PyInt int | PyFloat pyfloat

text \<open>
  The conversion of an \<^verbatim>\<open>int\<close> operand to \<^verbatim>\<open>float\<close>; it raises \<^verbatim>\<open>OverflowError\<close>
  for an integer too large.
\<close>

definition float_of_int :: "int \<Rightarrow> py_error + rat" where
  "float_of_int z =
     (if overflows (of_int z) then Inl OverflowError else Inr (nearest_double (of_int z)))"

text \<open>
  \<^verbatim>\<open>a / b\<close> on two \<^verbatim>\<open>int\<close>s: the correctly rounded quotient, \<^verbatim>\<open>ZeroDivisionError\<close>
  for a zero divisor and \<^verbatim>\<open>OverflowError\<close> for a quotient too large.
\<close>

definition int_true_div :: "int \<Rightarrow> int \<Rightarrow> py_error + rat" where
  "int_true_div a b =
     (if b = 0 then Inl ZeroDivisionError
      else if overflows (of_int a / of_int b) then Inl OverflowError
      else Inr (nearest_double (of_int a / of_int b)))"

text \<open>The sum of two finite \<^verbatim>\<open>float\<close>s; it overflows to an infinity and raises nothing.\<close>

definition float_add :: "rat \<Rightarrow> rat \<Rightarrow> pyfloat" where
  "float_add x y =
     (if overflows (x + y) then (if 0 < x + y then PosInf else NegInf)
      else Finite (nearest_double (x + y)))"

text \<open>\<^verbatim>\<open>n + f\<close> and \<^verbatim>\<open>n - f\<close> for a number \<open>n\<close> and a finite \<^verbatim>\<open>float\<close> \<open>f\<close>.\<close>

definition number_add :: "number \<Rightarrow> rat \<Rightarrow> py_error + pyfloat" where
  "number_add n f =
     (case n of
        PyInt z \<Rightarrow> (case float_of_int z of Inl err \<Rightarrow> Inl err | Inr x \<Rightarrow> Inr (float_add x f))
      | PyFloat (Finite x) \<Rightarrow> Inr (float_add x f)
      | PyFloat PosInf \<Rightarrow> Inr PosInf
      | PyFloat NegInf \<Rightarrow> Inr NegInf)"

definition number_sub :: "number \<Rightarrow> rat \<Rightarrow> py_error + pyfloat" where
  "number_sub n f = number_add n (- f)"

text \<open>
  Python's \<^verbatim>\<open>round\<close> with one argument: an \<^verbatim>\<open>int\<close> is returned as it is, a finite
  \<^verbatim>\<open>float\<close> goes to the nearest integer, and an infinity raises \<^verbatim>\<open>OverflowError\<close>.
\<close>

definition py_round :: "number \<Rightarrow> py_error + int" where
  "py_round n =
     (case n of
        PyInt z \<Rightarrow> Inr z
      | PyFloat (Finite x) \<Rightarrow> Inr (round_half_even x)
      | PyFloat PosInf \<Rightarrow> Inl OverflowError
      | PyFloat NegInf \<Rightarrow> Inl OverflowError)"

text \<open>The value of a number that is not an infinity.\<close>

definition finite_value :: "number \<Rightarrow> rat option" where
  "finite_value n =
     (case n of
        PyInt z \<Rightarrow> Some (of_int z)
      | PyFloat (Finite x) \<Rightarrow> Some x
      | PyFloat PosInf \<Rightarrow> None
      | PyFloat NegInf \<Rightarrow> None)"

subsection \<open>SoundObject.py\<close>

text \<open>
  The calls the program issues to \<^verbatim>\<open>pygame.mixer.music\<close>, in the order issued. The
  device itself is an external collaborator; the embedding records what it is told.
\<close>

datatype mixer_call =
  Load string
| Play int rat
| Pause
| Stop

text \<open>
  The mutable state the two modules act on: the module-level global
  \<^verbatim>\<open>TARGET_DURATION\<close> (\<open>-1\<close> when no sound is current), the calls made to the
  mixer so far, and the lines printed to standard output.
\<close>

record world =
  TARGET_DURATION :: int
  music :: "mixer_call list"
  stdout :: "string list"

text \<open>The initial value of the global, line 52.\<close>

definition initial_world :: world where
  "initial_world = \<lparr>TARGET_DURATION = - 1, music = [], stdout = []\<rparr>"

datatype surface = Surface string bool

text \<open>
  What the program reads from outside: the directory of the script
  (\<^verbatim>\<open>os.path.split(os.path.abspath(__file__))[0]\<close>), and for every path whether
  \<^verbatim>\<open>pygame.mixer.music.load\<close> and \<^verbatim>\<open>pygame.image.load\<close> succeed. A failing load
  raises \<^verbatim>\<open>pygame.error\<close>; the string is what \<^verbatim>\<open>pygame.get_error()\<close> returns then.
\<close>

record env =
  main_dir :: string
  music_load :: "string \<Rightarrow> string option"
  image_load :: "string \<Rightarrow> string + surface"

text \<open>\<^verbatim>\<open>os.path.join\<close> of two components (the POSIX implementation).\<close>

definition path_join :: "string \<Rightarrow> string \<Rightarrow> string" where
  "path_join a b =
     (case b of
        c # _ \<Rightarrow>
          if c = CHR ''/'' then b
          else if a = [] \<or> last a = CHR ''/'' then a @ b
          else a @ ''/'' @ b
      | [] \<Rightarrow> if a = [] \<or> last a = CHR ''/'' then a @ b else a @ ''/'' @ b)"

text \<open>
  \<^verbatim>\<open>stop_when_done\<close>, lines 58-69. The argument \<open>t\<close> is the value that
  \<^verbatim>\<open>pygame.mixer.music.get_pos()\<close> returns in this call.
\<close>

definition stop_when_done :: "int \<Rightarrow> world \<Rightarrow> world" where
  "stop_when_done t w =
     (if TARGET_DURATION w \<noteq> - 1 then
        (if t > TARGET_DURATION w then
           w\<lparr>music := music w @ [Stop], TARGET_DURATION := - 1\<rparr>
         else w)
      else w)"

text \<open>The watchdog called once per frame, with the device time read in each frame.\<close>

fun ticks :: "int list \<Rightarrow> world \<Rightarrow> world" where
  "ticks [] w = w"
| "ticks (t # ts) w = ticks ts (stop_when_done t w)"

record SoundObject =
  data_dir :: string
  filename :: string
  start_time :: int
  duration :: int

text \<open>\<^verbatim>\<open>SoundObject.__init__\<close>, lines 85-91.\<close>

definition SoundObject_init :: "string \<Rightarrow> string \<Rightarrow> int \<Rightarrow> int \<Rightarrow> SoundObject" where
  "SoundObject_init data_dir_in filename_in start_in duration_in =
     \<lparr>data_dir = data_dir_in, filename = filename_in,
      start_time = start_in, duration = duration_in\<rparr>"

text \<open>The local \<^verbatim>\<open>filename\<close> of \<^verbatim>\<open>play\<close>, lines 103-107.\<close>

definition sound_path :: "env \<Rightarrow> SoundObject \<Rightarrow> string" where
  "sound_path e s = path_join (path_join (main_dir e) (data_dir s)) (filename s)"

text \<open>
  \<^verbatim>\<open>SoundObject.play\<close>, lines 95-122. A raised exception is the left summand; the
  world is returned in both cases, since what was printed before the \<^verbatim>\<open>raise\<close> stays
  printed. The start in seconds is the \<^verbatim>\<open>float\<close> \<^verbatim>\<open>self._start_time/1000\<close>.
\<close>

definition play :: "env \<Rightarrow> SoundObject \<Rightarrow> world \<Rightarrow> (py_error + unit) \<times> world" where
  "play e s w =
     (let w1 = w\<lparr>music := music w @ [Load (sound_path e s)]\<rparr> in
      case music_load e (sound_path e s) of
        Some err \<Rightarrow>
          (Inl (SystemExit err),
           w1\<lparr>stdout := stdout w1 @ [''Cannot load sound file: '' @ sound_path e s]\<rparr>)
      | None \<Rightarrow>
          (case int_true_div (start_time s) 1000 of
             Inl err \<Rightarrow> (Inl err, w1)
           | Inr start \<Rightarrow>
               (Inr (),
                w1\<lparr>music := music w1 @ [Play 0 start],
                   TARGET_DURATION := duration s\<rparr>)))"

text \<open>
  \<^verbatim>\<open>SoundObject.pause\<close>, lines 124-129. The method has no \<^verbatim>\<open>global\<close> statement, so
  its assignment \<^verbatim>\<open>TARGET_DURATION = self._duration\<close> binds a local name that is
  dropped on return; the module-level global is not written.
\<close>

definition pause :: "SoundObject \<Rightarrow> world \<Rightarrow> world" where
  "pause s w = (let local_TARGET_DURATION = duration s in w\<lparr>music := music w @ [Pause]\<rparr>)"

subsection \<open>P3.py: load_image\<close>

definition DATA_DIR :: string where
  "DATA_DIR = ''data''"

definition convert :: "surface \<Rightarrow> surface" where
  "convert img = (case img of Surface f _ \<Rightarrow> Surface f True)"

definition image_path :: "env \<Rightarrow> string \<Rightarrow> string" where
  "image_path e name = path_join (path_join (main_dir e) DATA_DIR) name"

text \<open>\<^verbatim>\<open>load_image\<close>, lines 42-62 (the parameter \<^verbatim>\<open>colorkey\<close> is never read).\<close>

definition load_image :: "env \<Rightarrow> string \<Rightarrow> world \<Rightarrow> (py_error + surface) \<times> world" where
  "load_image e name w =
     (case image_load e (image_path e name) of
        Inl err \<Rightarrow>
          (Inl (SystemExit err),
           w\<lparr>stdout := stdout w @ [''Cannot load image: '' @ image_path e name]\<rparr>)
      | Inr img \<Rightarrow> (Inr (convert img), w))"

subsection \<open>P3.py: Arrow\<close>

text \<open>
  The fields of an \<^verbatim>\<open>Arrow\<close> (without \<^verbatim>\<open>_surface\<close>, which only \<^verbatim>\<open>draw\<close> reads).
  \<^verbatim>\<open>_y_with_decimal\<close> is an \<^verbatim>\<open>int\<close> until the first move and a \<^verbatim>\<open>float\<close> after it;
  \<^verbatim>\<open>_movement_distance\<close> is always a finite \<^verbatim>\<open>float\<close>.
\<close>

record Arrow =
  arrow_x :: int
  arrow_y :: int
  top_y :: int
  bottom_y :: int
  num_lines :: int
  y_with_decimal :: number
  movement_distance :: rat

text \<open>
  \<^verbatim>\<open>Arrow.__init__\<close>, lines 69-84. The division of line 84 raises
  \<^verbatim>\<open>ZeroDivisionError\<close> when \<^verbatim>\<open>num_lines\<close> is zero.
\<close>

definition Arrow_init :: "int \<Rightarrow> int \<Rightarrow> int \<Rightarrow> int \<Rightarrow> int \<Rightarrow> py_error + Arrow" where
  "Arrow_init initial_x_pos initial_y_pos top_y_in bottom_y_in num_lines_in =
     (case int_true_div (bottom_y_in - top_y_in) num_lines_in of
        Inl err \<Rightarrow> Inl err
      | Inr d \<Rightarrow>
          Inr \<lparr>arrow_x = initial_x_pos, arrow_y = initial_y_pos,
               top_y = top_y_in, bottom_y = bottom_y_in, num_lines = num_lines_in,
               y_with_decimal = PyInt initial_y_pos,
               movement_distance = d\<rparr>)"

text \<open>
  \<^verbatim>\<open>move_up\<close>, lines 98-103. The arrow is returned as the call leaves it, also when
  the subtraction or the rounding raises.
\<close>

definition move_up :: "Arrow \<Rightarrow> (py_error + unit) \<times> Arrow" where
  "move_up a =
     (if arrow_y a > top_y a then
        (case number_sub (y_with_decimal a) (movement_distance a) of
           Inl err \<Rightarrow> (Inl err, a)
         | Inr f \<Rightarrow>
             (let a1 = a\<lparr>y_with_decimal := PyFloat f\<rparr> in
              case py_round (y_with_decimal a1) of
                Inl err \<Rightarrow> (Inl err, a1)
              | Inr z \<Rightarrow> (Inr (), a1\<lparr>arrow_y := z\<rparr>)))
      else (Inr (), a))"

text \<open>\<^verbatim>\<open>move_down\<close>, lines 106-110.\<close>

definition move_down :: "Arrow \<Rightarrow> (py_error + unit) \<times> Arrow" where
  "move_down a =
     (if arrow_y a < bottom_y a then
        (case number_add (y_with_decimal a) (movement_distance a) of
           Inl err \<Rightarrow> (Inl err, a)
         | Inr f \<Rightarrow>
             (let a1 = a\<lparr>y_with_decimal := PyFloat f\<rparr> in
              case py_round (y_with_decimal a1) of
                Inl err \<Rightarrow> (Inl err, a1)
              | Inr z \<Rightarrow> (Inr (), a1\<lparr>arrow_y := z\<rparr>)))
      else (Inr (), a))"

text \<open>\<^verbatim>\<open>toggle_left\<close> and \<^verbatim>\<open>toggle_right\<close>, lines 113-116.\<close>

definition toggle_left :: "Arrow \<Rightarrow> Arrow" where
  "toggle_left a = a\<lparr>arrow_x := arrow_x a - 400\<rparr>"

definition toggle_right :: "Arrow \<Rightarrow> Arrow" where
  "toggle_right a = a\<lparr>arrow_x := arrow_x a + 400\<rparr>"

text \<open>
  Sequences of method calls on one arrow. A sequence ends at the first call that
  raises.
\<close>

datatype arrow_call = MoveUp | MoveDown | ToggleLeft | ToggleRight

fun call :: "arrow_call \<Rightarrow> Arrow \<Rightarrow> (py_error + unit) \<times> Arrow" where
  "call MoveUp a = move_up a"
| "call MoveDown a = move_down a"
| "call ToggleLeft a = (Inr (), toggle_left a)"
| "call ToggleRight a = (Inr (), toggle_right a)"

fun calls :: "arrow_call list \<Rightarrow> Arrow \<Rightarrow> (py_error + unit) \<times> Arrow" where
  "calls [] a = (Inr (), a)"
| "calls (c # cs) a =
     (case call c a of
        (Inl err, a1) \<Rightarrow> (Inl err, a1)
      | (Inr u, a1) \<Rightarrow> calls cs a1)"



text \<open>
  An arrow of screen size: the top is not below the bottom, there is at least one
  line, both bounds are at most \<open>2\<^sup>2\<^sup>0\<close> in magnitude, and the step is the one
  \<^verbatim>\<open>__init__\<close> computes.
\<close>

definition screen_sized :: "Arrow \<Rightarrow> bool" where
  "screen_sized a \<longleftrightarrow>
     top_y a \<le> bottom_y a \<and> 0 < num_lines a \<and>
     \<bar>top_y a\<bar> \<le> 2 ^ 20 \<and> \<bar>bottom_y a\<bar> \<le> 2 ^ 20 \<and>
     int_true_div (bottom_y a - top_y a) (num_lines a) = Inr (movement_distance a)"

text \<open>The exact position of line \<open>j\<close> of the span, counted from the top.\<close>

definition line_pos :: "Arrow \<Rightarrow> int \<Rightarrow> rat" where
  "line_pos a j =
     of_int (top_y a) + of_int j * (of_int (bottom_y a - top_y a) / of_int (num_lines a))"

text \<open>
  The accumulator is finite and within \<open>eps\<close> of line \<open>j\<close>, and the rounded position
  is its rounding.
\<close>

definition near_line :: "rat \<Rightarrow> int \<Rightarrow> Arrow \<Rightarrow> bool" where
  "near_line eps j a \<longleftrightarrow>
     0 \<le> j \<and> j \<le> num_lines a \<and>
     (case finite_value (y_with_decimal a) of
        None \<Rightarrow> False
      | Some x \<Rightarrow> \<bar>x - line_pos a j\<bar> \<le> eps \<and> arrow_y a = round_half_even x)"

section \<open>Properties of the numbers\<close>

subsection \<open>Rounding to an integer\<close>

lemma round_half_even_of_int: "round_half_even (of_int z) = z"
  by (simp add: round_half_even_def)

lemma round_half_even_error: "\<bar>of_int (round_half_even q) - q\<bar> \<le> 1 / 2"
proof -
  have "of_int \<lfloor>q\<rfloor> \<le> q" and "q < of_int \<lfloor>q\<rfloor> + 1" by linarith+
  then show ?thesis
    unfolding round_half_even_def Let_def by (auto simp: abs_le_iff)
qed

lemma round_half_even_ge:
  assumes "of_int z - 1 / 2 < q"
  shows "z \<le> round_half_even q"
proof -
  from round_half_even_error [of q] assms
  have "(of_int z :: rat) - 1 < of_int (round_half_even q)" by linarith
  then have "(of_int (z - 1) :: rat) < of_int (round_half_even q)" by simp
  then have "z - 1 < round_half_even q" by (simp only: of_int_less_iff)
  then show ?thesis by simp
qed

lemma round_half_even_le:
  assumes "q < of_int z + 1 / 2"
  shows "round_half_even q \<le> z"
proof -
  from round_half_even_error [of q] assms
  have "(of_int (round_half_even q) :: rat) < of_int z + 1" by linarith
  then have "(of_int (round_half_even q) :: rat) < of_int (z + 1)" by simp
  then have "round_half_even q < z + 1" by (simp only: of_int_less_iff)
  then show ?thesis by simp
qed

lemma round_half_even_near:
  assumes "\<bar>q - of_int z\<bar> < 1 / 2"
  shows "round_half_even q = z"
proof -
  from assms have "of_int z - 1 / 2 < q" and "q < of_int z + 1 / 2"
    by linarith+
  then have "z \<le> round_half_even q" and "round_half_even q \<le> z"
    by (simp_all only: round_half_even_ge round_half_even_le)
  then show ?thesis by simp
qed


subsection \<open>Rounding to binary64\<close>

lemma binary_exponent_le:
  assumes "q \<noteq> 0"
  shows "2 powi binary_exponent q \<le> \<bar>q\<bar>"
proof -
  obtain a b where ab: "quotient_of \<bar>q\<bar> = (a, b)" by (cases "quotient_of \<bar>q\<bar>")
  then have b: "0 < b" by (rule quotient_of_denom_pos)
  from ab have q: "\<bar>q\<bar> = of_int a / of_int b" by (rule quotient_of_div)
  from assms have "0 < \<bar>q\<bar>" by simp
  with q b have a: "0 < a" by (simp add: zero_less_divide_iff)
  let ?e0 = "bitlen a - bitlen b"
  show ?thesis
  proof (cases "2 powi ?e0 \<le> \<bar>q\<bar>")
    case True
    with ab show ?thesis by (simp add: binary_exponent_def)
  next
    case False
    from a have la: "1 \<le> bitlen a" by (simp add: bitlen_alt_def)
    from b have lb: "1 \<le> bitlen b" by (simp add: bitlen_alt_def)
    from bitlen_bounds [OF a] have "2 ^ nat (bitlen a - 1) \<le> a" ..
    then have "(of_int (2 ^ nat (bitlen a - 1)) :: rat) \<le> of_int a" by (simp only: of_int_le_iff)
    then have num: "(2 :: rat) ^ nat (bitlen a - 1) \<le> of_int a" by simp
    from bitlen_bounds [OF b] have "b < 2 ^ nat (bitlen b)" ..
    then have "(of_int b :: rat) < of_int (2 ^ nat (bitlen b))" by (simp only: of_int_less_iff)
    then have den: "(of_int b :: rat) \<le> 2 ^ nat (bitlen b)" by simp
    have "(2 :: rat) powi (?e0 - 1) = 2 powi (bitlen a - 1) / 2 powi bitlen b"
      by (simp add: power_int_diff)
    also have "\<dots> = 2 ^ nat (bitlen a - 1) / 2 ^ nat (bitlen b)"
      using la lb by (simp add: power_int_def)
    also have "\<dots> \<le> of_int a / of_int b"
      using num den a b by (intro frac_le) simp_all
    finally have "(2 :: rat) powi (?e0 - 1) \<le> \<bar>q\<bar>" by (simp add: q)
    with False ab show ?thesis by (simp add: binary_exponent_def)
  qed
qed

lemma binary_exponent_gt:
  assumes "q \<noteq> 0"
  shows "\<bar>q\<bar> < 2 powi (binary_exponent q + 1)"
proof -
  obtain a b where ab: "quotient_of \<bar>q\<bar> = (a, b)" by (cases "quotient_of \<bar>q\<bar>")
  then have b: "0 < b" by (rule quotient_of_denom_pos)
  from ab have q: "\<bar>q\<bar> = of_int a / of_int b" by (rule quotient_of_div)
  from assms have "0 < \<bar>q\<bar>" by simp
  with q b have a: "0 < a" by (simp add: zero_less_divide_iff)
  let ?e0 = "bitlen a - bitlen b"
  show ?thesis
  proof (cases "2 powi ?e0 \<le> \<bar>q\<bar>")
    case False
    with ab show ?thesis by (simp add: binary_exponent_def)
  next
    case True
    from a have la: "1 \<le> bitlen a" by (simp add: bitlen_alt_def)
    from b have lb: "1 \<le> bitlen b" by (simp add: bitlen_alt_def)
    from bitlen_bounds [OF a] have "a < 2 ^ nat (bitlen a)" ..
    then have "(of_int a :: rat) < of_int (2 ^ nat (bitlen a))" by (simp only: of_int_less_iff)
    then have num: "(of_int a :: rat) < 2 ^ nat (bitlen a)" by simp
    from bitlen_bounds [OF b] have "2 ^ nat (bitlen b - 1) \<le> b" ..
    then have "(of_int (2 ^ nat (bitlen b - 1)) :: rat) \<le> of_int b" by (simp only: of_int_le_iff)
    then have den: "(2 :: rat) ^ nat (bitlen b - 1) \<le> of_int b" by simp
    have "of_int a / of_int b < (2 :: rat) ^ nat (bitlen a) / 2 ^ nat (bitlen b - 1)"
      using num den a b by (intro frac_less) simp_all
    also have "\<dots> = 2 powi bitlen a / 2 powi (bitlen b - 1)"
      using la lb by (simp add: power_int_def)
    also have "\<dots> = 2 powi (bitlen a - (bitlen b - 1))"
      by (rule power_int_diff [symmetric]) simp
    finally have "\<bar>q\<bar> < 2 powi (bitlen a - (bitlen b - 1))" by (simp only: q)
    moreover have "bitlen a - (bitlen b - 1) = ?e0 + 1" by simp
    ultimately have "\<bar>q\<bar> < 2 powi (?e0 + 1)" by (simp only:)
    with True ab show ?thesis by (simp add: binary_exponent_def)
  qed
qed

lemma nearest_double_error:
  "\<bar>nearest_double q - q\<bar> \<le> \<bar>q\<bar> / 2 ^ 53 + 2 powi (- 1075)"
proof (cases "q = 0")
  case True
  have "(0 :: rat) \<le> 2 powi (- 1075)" by (rule zero_le_power_int) simp
  with True show ?thesis
    by (simp add: nearest_double_def del: power_int_numeral_neg_numeral)
next
  case False
  let ?e = "max (binary_exponent q) (- 1022)"
  let ?ulp = "(2 :: rat) powi (?e - 52)"
  have pos: "0 < ?ulp" by simp
  have "nearest_double q - q = (of_int (round_half_even (q / ?ulp)) - q / ?ulp) * ?ulp"
    using False pos by (simp add: nearest_double_def Let_def algebra_simps)
  then have "\<bar>nearest_double q - q\<bar> = \<bar>of_int (round_half_even (q / ?ulp)) - q / ?ulp\<bar> * ?ulp"
    using pos by (simp add: abs_mult)
  also have "\<dots> \<le> (1 / 2) * ?ulp"
    using pos round_half_even_error [of "q / ?ulp"] by (intro mult_right_mono) simp_all
  also have "\<dots> = 2 powi (?e - 53)"
    by (simp add: power_int_diff)
  finally have half_ulp: "\<bar>nearest_double q - q\<bar> \<le> 2 powi (?e - 53)" .
  show ?thesis
  proof (cases "- 1022 \<le> binary_exponent q")
    case True
    then have "(2 :: rat) powi (?e - 53) = 2 powi binary_exponent q / 2 ^ 53"
      by (simp add: max_def power_int_diff)
    also have "\<dots> \<le> \<bar>q\<bar> / 2 ^ 53"
      using binary_exponent_le [OF False] by (simp add: divide_right_mono)
    finally have "\<bar>nearest_double q - q\<bar> \<le> \<bar>q\<bar> / 2 ^ 53" using half_ulp by simp
    moreover have "(0 :: rat) \<le> 2 powi (- 1075)" by (rule zero_le_power_int) simp
    ultimately show ?thesis by (rule add_increasing2 [rotated])
  next
    case False
    then have "?e - 53 = - 1075" by simp
    with half_ulp have "\<bar>nearest_double q - q\<bar> \<le> 2 powi (- 1075)" by (simp only:)
    moreover have "0 \<le> \<bar>q\<bar> / 2 ^ 53" by simp
    ultimately show ?thesis by (rule add_increasing [rotated])
  qed
qed

lemma nearest_double_error_bound:
  assumes "1 \<le> M" and "\<bar>q\<bar> \<le> M"
  shows "\<bar>nearest_double q - q\<bar> \<le> M / 2 ^ 52"
proof -
  have "\<bar>q\<bar> / 2 ^ 53 \<le> M / 2 ^ 53" using assms(2) by (simp add: divide_right_mono)
  moreover have "(2 :: rat) powi (- 1075) \<le> 2 powi (- 53)"
    by (rule power_int_increasing) simp_all
  moreover have "(2 :: rat) powi (- 53) = 1 / 2 ^ 53"
    by (simp add: power_int_minus_divide)
  moreover have "(1 :: rat) / 2 ^ 53 \<le> M / 2 ^ 53" using assms(1) by (simp add: divide_right_mono)
  moreover have "M / 2 ^ 53 + M / 2 ^ 53 = M / 2 ^ 52" by simp
  moreover note nearest_double_error [of q]
  ultimately show ?thesis by linarith
qed

lemma no_overflow:
  assumes "1 \<le> M" and "\<bar>q\<bar> \<le> M" and "M \<le> 2 ^ 100"
  shows "\<not> overflows q"
proof -
  from nearest_double_error_bound [OF assms(1,2)] have "\<bar>nearest_double q\<bar> \<le> \<bar>q\<bar> + M / 2 ^ 52"
    by linarith
  also have "\<dots> \<le> M + M" using assms(1,2)
    by (intro add_mono) (simp_all add: divide_le_eq)
  also have "\<dots> \<le> 2 ^ 101" using assms(3) by simp
  also have "\<dots> < (2 :: rat) ^ 1024" by (intro power_strict_increasing) simp_all
  finally show ?thesis by (simp add: overflows_def)
qed

lemma not_overflows_small:
  assumes "\<bar>q\<bar> \<le> 2 ^ 64"
  shows "\<not> overflows q"
  using assms by (intro no_overflow [where M = "2 ^ 64"]) simp_all

lemma float_of_int_small:
  assumes "\<bar>z\<bar> \<le> 2 ^ 64"
  shows "float_of_int z = Inr (nearest_double (of_int z))"
proof -
  from assms have "\<bar>(of_int z :: rat)\<bar> \<le> of_int (2 ^ 64)"
    by (simp only: of_int_abs [symmetric] of_int_le_iff)
  then have "\<not> overflows (of_int z)" by (intro not_overflows_small) simp
  then show ?thesis by (simp add: float_of_int_def)
qed

lemma int_true_div_small:
  assumes "b \<noteq> 0" and "\<bar>a\<bar> \<le> 2 ^ 64"
  shows "int_true_div a b = Inr (nearest_double (of_int a / of_int b))"
proof -
  from assms(1) have "1 \<le> \<bar>b\<bar>" by simp
  then have "(of_int 1 :: rat) \<le> of_int \<bar>b\<bar>" by (simp only: of_int_le_iff)
  then have b: "(1 :: rat) \<le> \<bar>of_int b\<bar>" by simp
  from assms(2) have "(of_int \<bar>a\<bar> :: rat) \<le> of_int (2 ^ 64)" by (simp only: of_int_le_iff)
  then have a: "\<bar>(of_int a :: rat)\<bar> \<le> 2 ^ 64" by simp
  have "\<bar>(of_int a :: rat) / of_int b\<bar> = \<bar>of_int a\<bar> / \<bar>of_int b\<bar>" by simp
  also have "\<dots> \<le> \<bar>of_int a\<bar> / 1" using b by (intro divide_left_mono) simp_all
  finally have "\<bar>(of_int a :: rat) / of_int b\<bar> \<le> 2 ^ 64" using a by simp
  then have "\<not> overflows (of_int a / of_int b)" by (rule not_overflows_small)
  with assms(1) show ?thesis by (simp add: int_true_div_def)
qed

lemma float_add_small:
  assumes "\<bar>x + y\<bar> \<le> 2 ^ 64"
  shows "float_add x y = Finite (nearest_double (x + y))"
  using not_overflows_small [OF assms] by (simp add: float_add_def)

section \<open>Properties of the sound segments\<close>

text \<open>
  C1. For an armed duration different from the sentinel \<open>-1\<close> and a device time
  \<open>t\<close>: a tick with \<open>t\<close> at most the armed duration changes nothing; a tick with
  \<open>t\<close> above it issues the stop and sets the armed duration to \<open>-1\<close>; and from a
  world whose armed duration is \<open>-1\<close>, any number of further ticks, whatever the device
  times, change nothing.
\<close>

theorem stop_when_done_watchdog:
  "(TARGET_DURATION w \<noteq> - 1 \<and> t \<le> TARGET_DURATION w \<longrightarrow> stop_when_done t w = w) \<and>
   (TARGET_DURATION w \<noteq> - 1 \<and> TARGET_DURATION w < t \<longrightarrow>
      stop_when_done t w = w\<lparr>music := music w @ [Stop], TARGET_DURATION := - 1\<rparr>) \<and>
   (TARGET_DURATION w = - 1 \<longrightarrow> ticks ts w = w)"
proof -
  have idle: "TARGET_DURATION v = - 1 \<Longrightarrow> ticks ts v = v" for v
    by (induction ts) (simp_all add: stop_when_done_def)
  show ?thesis
    using idle [of w] by (simp add: stop_when_done_def)
qed

theorem stop_when_done_watchdog_witness:
  "stop_when_done 750 \<lparr>TARGET_DURATION = 750, music = [Load ''Forward.ogg'', Play 0 (1 / 2)], stdout = []\<rparr>
     = \<lparr>TARGET_DURATION = 750, music = [Load ''Forward.ogg'', Play 0 (1 / 2)], stdout = []\<rparr> \<and>
   stop_when_done 751 \<lparr>TARGET_DURATION = 750, music = [Load ''Forward.ogg'', Play 0 (1 / 2)], stdout = []\<rparr>
     = \<lparr>TARGET_DURATION = - 1, music = [Load ''Forward.ogg'', Play 0 (1 / 2), Stop], stdout = []\<rparr> \<and>
   ticks [800, 816, 833]
       \<lparr>TARGET_DURATION = - 1, music = [Load ''Forward.ogg'', Play 0 (1 / 2), Stop], stdout = []\<rparr>
     = \<lparr>TARGET_DURATION = - 1, music = [Load ''Forward.ogg'', Play 0 (1 / 2), Stop], stdout = []\<rparr>"
  using
    stop_when_done_watchdog [of "\<lparr>TARGET_DURATION = 750, music = [Load ''Forward.ogg'', Play 0 (1 / 2)], stdout = []\<rparr>" 750 "[]"]
    stop_when_done_watchdog [of "\<lparr>TARGET_DURATION = 750, music = [Load ''Forward.ogg'', Play 0 (1 / 2)], stdout = []\<rparr>" 751 "[]"]
    stop_when_done_watchdog [of "\<lparr>TARGET_DURATION = - 1, music = [Load ''Forward.ogg'', Play 0 (1 / 2), Stop], stdout = []\<rparr>" 0 "[800, 816, 833]"]
  by simp

text \<open>
  C2. After a \<^verbatim>\<open>play\<close> that returns, the armed duration is the duration of the segment
  played. So after \<^verbatim>\<open>play\<close> of a segment \<open>A\<close> and then \<^verbatim>\<open>play\<close> of a segment \<open>B\<close>,
  from any world, the one armed duration is that of \<open>B\<close>, and the last calls to the
  mixer are the load and the start of \<open>B\<close>.
\<close>

theorem play_arms_duration:
  "(play e s w = (Inr (), w') \<longrightarrow> TARGET_DURATION w' = duration s) \<and>
   (play e A w = (Inr (), w1) \<and> play e B w1 = (Inr (), w2) \<longrightarrow>
      TARGET_DURATION w2 = duration B \<and>
      (\<exists>start. int_true_div (start_time B) 1000 = Inr start \<and>
         music w2 = music w1 @ [Load (sound_path e B), Play 0 start]))"
  by (auto simp: play_def Let_def split: option.splits sum.splits)

theorem play_arms_duration_witness:
  "play \<lparr>main_dir = ''/app'', music_load = (\<lambda>p. None), image_load = (\<lambda>p. Inl ''no image'')\<rparr>
        (SoundObject_init ''data'' ''Forward.ogg'' 500 750) initial_world
     = (Inr (), \<lparr>TARGET_DURATION = 750,
                 music = [Load ''/app/data/Forward.ogg'', Play 0 (1 / 2)], stdout = []\<rparr>) \<and>
   play \<lparr>main_dir = ''/app'', music_load = (\<lambda>p. None), image_load = (\<lambda>p. Inl ''no image'')\<rparr>
        (SoundObject_init ''data'' ''NavigationPrompts.ogg'' 8000 1500)
        \<lparr>TARGET_DURATION = 750,
         music = [Load ''/app/data/Forward.ogg'', Play 0 (1 / 2)], stdout = []\<rparr>
     = (Inr (), \<lparr>TARGET_DURATION = 1500,
                 music = [Load ''/app/data/Forward.ogg'', Play 0 (1 / 2),
                          Load ''/app/data/NavigationPrompts.ogg'', Play 0 8], stdout = []\<rparr>) \<and>
   TARGET_DURATION \<lparr>TARGET_DURATION = 1500,
                 music = [Load ''/app/data/Forward.ogg'', Play 0 (1 / 2),
                          Load ''/app/data/NavigationPrompts.ogg'', Play 0 8], stdout = []\<rparr>
     = duration (SoundObject_init ''data'' ''NavigationPrompts.ogg'' 8000 1500)"
proof -
  let ?e = "\<lparr>main_dir = ''/app'', music_load = (\<lambda>p. None), image_load = (\<lambda>p. Inl ''no image'')\<rparr>"
  let ?A = "SoundObject_init ''data'' ''Forward.ogg'' 500 750"
  let ?B = "SoundObject_init ''data'' ''NavigationPrompts.ogg'' 8000 1500"
  let ?w1 = "\<lparr>TARGET_DURATION = 750,
               music = [Load ''/app/data/Forward.ogg'', Play 0 (1 / 2)], stdout = []\<rparr>"
  let ?w2 = "\<lparr>TARGET_DURATION = 1500,
               music = [Load ''/app/data/Forward.ogg'', Play 0 (1 / 2),
                        Load ''/app/data/NavigationPrompts.ogg'', Play 0 8], stdout = []\<rparr>"
  have "nearest_double (500 / 1000) = 1 / 2" by code_simp
  then have d1: "int_true_div 500 1000 = Inr (1 / 2)"
    by (simp add: int_true_div_small)
  have "nearest_double (8000 / 1000) = 8" by code_simp
  then have d2: "int_true_div 8000 1000 = Inr 8"
    by (simp add: int_true_div_small)
  have a: "play ?e ?A initial_world = (Inr (), ?w1)"
    by (simp add: play_def sound_path_def path_join_def SoundObject_init_def initial_world_def d1)
  have b: "play ?e ?B ?w1 = (Inr (), ?w2)"
    by (simp add: play_def sound_path_def path_join_def SoundObject_init_def d2)
  from a b play_arms_duration [of ?e ?A initial_world ?w1 ?A ?w1 ?B ?w2]
  show ?thesis by simp
qed

text \<open>
  C7. \<^verbatim>\<open>pause\<close> of any segment, from any world, issues the pause to the mixer and leaves
  the armed duration (and everything else) as it was.
\<close>

theorem pause_keeps_armed_duration:
  "TARGET_DURATION (pause s w) = TARGET_DURATION w \<and>
   music (pause s w) = music w @ [Pause] \<and>
   stdout (pause s w) = stdout w"
  by (simp add: pause_def)

text \<open>
  C8. When the mixer cannot load the sound file of a segment, \<^verbatim>\<open>play\<close> prints the
  path it tried and raises \<^verbatim>\<open>SystemExit\<close> with the mixer's message: the load is tried
  once, nothing is started and nothing armed. When the image cannot be loaded,
  \<^verbatim>\<open>load_image\<close> prints the path and raises \<^verbatim>\<open>SystemExit\<close> in the same way, and
  returns no surface.
\<close>

theorem load_failure_is_fatal:
  "(music_load e (sound_path e s) = Some err \<longrightarrow>
      play e s w =
        (Inl (SystemExit err),
         w\<lparr>music := music w @ [Load (sound_path e s)],
           stdout := stdout w @ [''Cannot load sound file: '' @ sound_path e s]\<rparr>)) \<and>
   (image_load e (image_path e name) = Inl err \<longrightarrow>
      load_image e name w =
        (Inl (SystemExit err),
         w\<lparr>stdout := stdout w @ [''Cannot load image: '' @ image_path e name]\<rparr>))"
  by (simp add: play_def load_image_def Let_def)

theorem load_failure_is_fatal_witness:
  "play \<lparr>main_dir = ''/app'', music_load = (\<lambda>p. Some ''No such file''),
         image_load = (\<lambda>p. Inl ''No such file'')\<rparr>
        (SoundObject_init ''data'' ''Forward.ogg'' 500 750) initial_world
     = (Inl (SystemExit ''No such file''),
        \<lparr>TARGET_DURATION = - 1, music = [Load ''/app/data/Forward.ogg''],
         stdout = [''Cannot load sound file: /app/data/Forward.ogg'']\<rparr>) \<and>
   load_image \<lparr>main_dir = ''/app'', music_load = (\<lambda>p. Some ''No such file''),
         image_load = (\<lambda>p. Inl ''No such file'')\<rparr>
        ''MainMenu.png'' initial_world
     = (Inl (SystemExit ''No such file''),
        \<lparr>TARGET_DURATION = - 1, music = [],
         stdout = [''Cannot load image: /app/data/MainMenu.png'']\<rparr>)"
proof -
  let ?e = "\<lparr>main_dir = ''/app'', music_load = (\<lambda>p. Some ''No such file''),
         image_load = (\<lambda>p. Inl ''No such file'')\<rparr>"
  let ?s = "SoundObject_init ''data'' ''Forward.ogg'' 500 750"
  have p: "sound_path ?e ?s = ''/app/data/Forward.ogg''"
    by (simp add: sound_path_def path_join_def SoundObject_init_def)
  have q: "image_path ?e ''MainMenu.png'' = ''/app/data/MainMenu.png''"
    by (simp add: image_path_def path_join_def DATA_DIR_def)
  from load_failure_is_fatal [of ?e ?s "''No such file''" initial_world "''MainMenu.png''"]
  show ?thesis
    by (simp add: p q initial_world_def)
qed

section \<open>Properties of the arrow\<close>

subsection \<open>One move on a finite accumulator\<close>

lemma number_add_finite:
  assumes fv: "finite_value n = Some x"
    and M: "1 \<le> M" "M \<le> 2 ^ 90"
    and x: "\<bar>x\<bar> \<le> M" and f: "\<bar>f\<bar> \<le> M"
  shows "\<exists>x'. number_add n f = Inr (Finite x') \<and> \<bar>x' - (x + f)\<bar> \<le> 5 * (M / 2 ^ 52)"
proof -
  define E where "E = M / 2 ^ 52"
  have M4: "1 \<le> 4 * M" "4 * M \<le> 2 ^ 100" using M by simp_all
  have M1: "M \<le> 2 ^ 100"
  proof -
    have "M \<le> 2 ^ 90" by (rule M(2))
    also have "\<dots> \<le> (2 :: rat) ^ 100" by (intro power_increasing) simp_all
    finally show ?thesis .
  qed
  have E: "0 \<le> E" "E \<le> M" using M(1) by (simp_all add: E_def divide_le_eq)
  have add: "\<not> overflows (u + f) \<and> \<bar>nearest_double (u + f) - (u + f)\<bar> \<le> 4 * E"
    if "\<bar>u\<bar> \<le> 2 * M" for u
  proof -
    from that f have "\<bar>u + f\<bar> \<le> 4 * M" using M(1) by linarith
    with M4 show ?thesis
      using no_overflow [of "4 * M" "u + f"] nearest_double_error_bound [of "4 * M" "u + f"]
      by (simp add: E_def)
  qed
  show ?thesis
  proof (cases n)
    case (PyInt z)
    with fv have xz: "x = of_int z" by (simp add: finite_value_def)
    let ?u = "nearest_double x"
    have conv: "\<not> overflows x" "\<bar>?u - x\<bar> \<le> E"
      using no_overflow [OF M(1) x M1] nearest_double_error_bound [OF M(1) x]
      by (simp_all add: E_def)
    with x E have "\<bar>?u\<bar> \<le> 2 * M" by linarith
    from add [OF this] have ov: "\<not> overflows (?u + f)"
      and err: "\<bar>nearest_double (?u + f) - (?u + f)\<bar> \<le> 4 * E" by simp_all
    from conv(1) ov PyInt xz have "number_add n f = Inr (Finite (nearest_double (?u + f)))"
      by (simp add: number_add_def float_of_int_def float_add_def)
    moreover from err conv(2) have "\<bar>nearest_double (?u + f) - (x + f)\<bar> \<le> 5 * E"
      by linarith
    ultimately show ?thesis unfolding E_def by blast
  next
    case (PyFloat p)
    with fv have p: "p = Finite x" by (cases p) (simp_all add: finite_value_def)
    from x M(1) have "\<bar>x\<bar> \<le> 2 * M" by linarith
    from add [OF this] have ov: "\<not> overflows (x + f)"
      and err: "\<bar>nearest_double (x + f) - (x + f)\<bar> \<le> 4 * E" by simp_all
    from ov PyFloat p have "number_add n f = Inr (Finite (nearest_double (x + f)))"
      by (simp add: number_add_def float_add_def)
    moreover from err E(1) have "\<bar>nearest_double (x + f) - (x + f)\<bar> \<le> 5 * E"
      by linarith
    ultimately show ?thesis unfolding E_def by blast
  qed
qed

lemma move_down_finite:
  assumes "arrow_y a < bottom_y a"
    and "finite_value (y_with_decimal a) = Some x"
    and "1 \<le> M" "M \<le> 2 ^ 90" "\<bar>x\<bar> \<le> M" "\<bar>movement_distance a\<bar> \<le> M"
  shows "\<exists>x'. move_down a =
            (Inr (), a\<lparr>y_with_decimal := PyFloat (Finite x'), arrow_y := round_half_even x'\<rparr>) \<and>
          \<bar>x' - (x + movement_distance a)\<bar> \<le> 5 * (M / 2 ^ 52)"
proof -
  from number_add_finite [OF assms(2-6)] obtain x'
    where "number_add (y_with_decimal a) (movement_distance a) = Inr (Finite x')"
      and "\<bar>x' - (x + movement_distance a)\<bar> \<le> 5 * (M / 2 ^ 52)" by blast
  with assms(1) show ?thesis
    by (intro exI [of _ x']) (simp add: move_down_def py_round_def)
qed


subsection \<open>Sequences of calls\<close>

lemma calls_append:
  assumes "calls cs a = (Inr (), a1)"
  shows "calls (cs @ ds) a = calls ds a1"
  using assms
proof (induction cs arbitrary: a)
  case Nil
  then show ?case by simp
next
  case (Cons c cs)
  then show ?case by (cases "call c a") (auto split: sum.splits)
qed

lemma call_frame:
  "top_y (snd (call c a)) = top_y a"
  "bottom_y (snd (call c a)) = bottom_y a"
  "num_lines (snd (call c a)) = num_lines a"
  "movement_distance (snd (call c a)) = movement_distance a"
  by (cases c; simp add: move_up_def move_down_def toggle_left_def toggle_right_def Let_def
        split: sum.splits)+

lemma call_rounded:
  assumes "call c a = (Inr (), a1)"
    and "py_round (y_with_decimal a) = Inr (arrow_y a)"
  shows "py_round (y_with_decimal a1) = Inr (arrow_y a1)"
  using assms
  by (cases c)
    (auto simp: move_up_def move_down_def toggle_left_def toggle_right_def Let_def
      split: if_splits sum.splits)

lemma calls_rounded:
  assumes "calls cs a = (Inr (), a1)"
    and "py_round (y_with_decimal a) = Inr (arrow_y a)"
  shows "py_round (y_with_decimal a1) = Inr (arrow_y a1)"
  using assms
proof (induction cs arbitrary: a)
  case Nil
  then show ?case by simp
next
  case (Cons c cs)
  show ?case
  proof (cases "call c a")
    case (Pair r a2)
    with Cons.prems(1) have r: "call c a = (Inr (), a2)" and rest: "calls cs a2 = (Inr (), a1)"
      by (auto split: sum.splits)
    from call_rounded [OF r Cons.prems(2)] rest show ?thesis by (rule Cons.IH [rotated])
  qed
qed

subsection \<open>The lines of the span\<close>

lemma screen_step:
  assumes "screen_sized a"
  shows "\<bar>movement_distance a - of_int (bottom_y a - top_y a) / of_int (num_lines a)\<bar> \<le> 1 / 2 ^ 31"
    and "\<bar>movement_distance a\<bar> \<le> 2 ^ 22"
proof -
  let ?q = "(of_int (bottom_y a - top_y a) :: rat) / of_int (num_lines a)"
  from assms have n: "1 \<le> num_lines a" by (simp add: screen_sized_def)
  from assms have "\<bar>top_y a\<bar> \<le> 1048576" and "\<bar>bottom_y a\<bar> \<le> 1048576"
    by (simp_all add: screen_sized_def)
  then have "\<bar>bottom_y a - top_y a\<bar> \<le> 2097152" by linarith
  then have d: "\<bar>bottom_y a - top_y a\<bar> \<le> 2 ^ 21" by simp
  from assms n have s: "movement_distance a = nearest_double ?q"
    by (auto simp: screen_sized_def int_true_div_def split: if_splits)
  from n have "(of_int 1 :: rat) \<le> of_int (num_lines a)" by (simp only: of_int_le_iff)
  then have n': "(1 :: rat) \<le> of_int (num_lines a)" by simp
  from d have "(of_int \<bar>bottom_y a - top_y a\<bar> :: rat) \<le> of_int (2 ^ 21)"
    by (simp only: of_int_le_iff)
  then have d': "\<bar>(of_int (bottom_y a - top_y a) :: rat)\<bar> \<le> 2 ^ 21" by simp
  have "\<bar>?q\<bar> = \<bar>of_int (bottom_y a - top_y a)\<bar> / of_int (num_lines a)"
    using n' by simp
  also have "\<dots> \<le> \<bar>of_int (bottom_y a - top_y a)\<bar> / 1"
    using n' by (intro divide_left_mono) simp_all
  finally have q: "\<bar>?q\<bar> \<le> 2 ^ 21" using d' by simp
  from nearest_double_error_bound [OF _ q] have e: "\<bar>nearest_double ?q - ?q\<bar> \<le> 1 / 2 ^ 31"
    by simp
  then show "\<bar>movement_distance a - ?q\<bar> \<le> 1 / 2 ^ 31" by (simp only: s)
  from e have "\<bar>nearest_double ?q - ?q\<bar> \<le> 1" by simp
  moreover from q have "\<bar>?q\<bar> \<le> 2097152" by simp
  ultimately have "\<bar>nearest_double ?q\<bar> \<le> 4194304" by linarith
  then show "\<bar>movement_distance a\<bar> \<le> 2 ^ 22" by (simp only: s) simp
qed

lemma line_pos_bounds:
  assumes "screen_sized a" and "0 \<le> j" and "j \<le> num_lines a"
  shows "of_int (top_y a) \<le> line_pos a j" and "line_pos a j \<le> of_int (bottom_y a)"
proof -
  let ?d = "of_int (bottom_y a - top_y a) :: rat"
  let ?n = "of_int (num_lines a) :: rat"
  from assms(1) have d: "0 \<le> ?d" and n: "0 < ?n" by (simp_all add: screen_sized_def)
  from assms(2) have j: "(0 :: rat) \<le> of_int j" by simp
  from assms(3) have jn: "(of_int j :: rat) \<le> ?n" by (simp only: of_int_le_iff)
  show "of_int (top_y a) \<le> line_pos a j"
    using d n j by (simp add: line_pos_def)
  have "(of_int j :: rat) * (?d / ?n) \<le> ?n * (?d / ?n)"
    using jn d n by (intro mult_right_mono) simp_all
  also have "\<dots> = ?d" using n by simp
  finally show "line_pos a j \<le> of_int (bottom_y a)"
    by (simp add: line_pos_def)
qed

lemma line_pos_ends:
  assumes "screen_sized a"
  shows "line_pos a 0 = of_int (top_y a)" and "line_pos a (num_lines a) = of_int (bottom_y a)"
  using assms by (simp_all add: line_pos_def screen_sized_def)

lemma line_pos_step:
  "line_pos a (j + 1) = line_pos a j + of_int (bottom_y a - top_y a) / of_int (num_lines a)"
  "line_pos a (j - 1) = line_pos a j - of_int (bottom_y a - top_y a) / of_int (num_lines a)"
proof -
  let ?q = "(of_int (bottom_y a - top_y a) :: rat) / of_int (num_lines a)"
  have "(of_int (j + 1) :: rat) * ?q = of_int j * ?q + ?q"
    by (simp only: of_int_add of_int_1 distrib_right mult_1)
  then show "line_pos a (j + 1) = line_pos a j + ?q"
    by (simp only: line_pos_def add.assoc)
  have "(of_int (j - 1) :: rat) * ?q = of_int j * ?q - ?q"
    by (simp only: of_int_diff of_int_1 left_diff_distrib mult_1)
  then show "line_pos a (j - 1) = line_pos a j - ?q"
    by (simp only: line_pos_def add_diff_eq)
qed

text \<open>How the errors of one move add up.\<close>

lemma move_error:
  fixes x x' s q L eps :: rat
  assumes "\<bar>x' - (x + s)\<bar> \<le> 5 * (2 ^ 22 / 2 ^ 52)" and "\<bar>x - L\<bar> \<le> eps"
    and "\<bar>s - q\<bar> \<le> 1 / 2 ^ 31"
  shows "\<bar>x' - (L + q)\<bar> \<le> eps + 1 / 2 ^ 26"
proof -
  from assms(1) have "\<bar>x' - (x + s)\<bar> \<le> 5 / 1073741824" by simp
  moreover from assms(3) have "\<bar>s - q\<bar> \<le> 1 / 2147483648" by simp
  moreover note assms(2)
  ultimately have "\<bar>x' - (L + q)\<bar> \<le> eps + 1 / 67108864"
    unfolding abs_le_iff by linarith
  then show ?thesis by simp
qed


lemma near_lineD:
  assumes "near_line eps j a"
  obtains x where "finite_value (y_with_decimal a) = Some x"
    and "\<bar>x - line_pos a j\<bar> \<le> eps" and "arrow_y a = round_half_even x"
    and "0 \<le> j" and "j \<le> num_lines a"
  using assms by (auto simp: near_line_def split: option.splits)


lemma near_line_in_span:
  assumes "screen_sized a" and "near_line eps j a" and "eps < 1 / 2"
  shows "top_y a \<le> arrow_y a" and "arrow_y a \<le> bottom_y a"
proof -
  from assms(2) obtain x where x: "\<bar>x - line_pos a j\<bar> \<le> eps"
    and y: "arrow_y a = round_half_even x" and j: "0 \<le> j" "j \<le> num_lines a"
    by (rule near_lineD)
  from line_pos_bounds [OF assms(1) j] x assms(3)
  have "of_int (top_y a) - 1 / 2 < x" and "x < of_int (bottom_y a) + 1 / 2" by linarith+
  then show "top_y a \<le> arrow_y a" and "arrow_y a \<le> bottom_y a"
    by (simp_all only: y round_half_even_ge round_half_even_le)
qed

lemma near_last_line:
  assumes "screen_sized a" and "near_line eps (num_lines a) a" and "eps < 1 / 2"
  shows "arrow_y a = bottom_y a"
proof -
  from assms(2) obtain x where x: "\<bar>x - line_pos a (num_lines a)\<bar> \<le> eps"
    and y: "arrow_y a = round_half_even x" by (rule near_lineD)
  from x assms(3) line_pos_ends(2) [OF assms(1)] have "\<bar>x - of_int (bottom_y a)\<bar> < 1 / 2"
    by simp
  then show ?thesis unfolding y by (rule round_half_even_near)
qed


lemma near_line_magnitude:
  assumes "screen_sized a" and "near_line eps j a" and "eps < 1 / 2"
    and "finite_value (y_with_decimal a) = Some x"
  shows "\<bar>x\<bar> \<le> 2 ^ 22"
proof -
  from assms(2,4) have x: "\<bar>x - line_pos a j\<bar> \<le> eps" and j: "0 \<le> j" "j \<le> num_lines a"
    by (auto simp: near_line_def)
  from assms(1) have "- (2 ^ 20) \<le> top_y a" and "bottom_y a \<le> 2 ^ 20"
    by (simp_all add: screen_sized_def abs_le_iff)
  then have "(of_int (- (2 ^ 20)) :: rat) \<le> of_int (top_y a)"
    and "(of_int (bottom_y a) :: rat) \<le> of_int (2 ^ 20)"
    by (simp_all only: of_int_le_iff)
  then have "- (2 ^ 20) \<le> (of_int (top_y a) :: rat)" and "(of_int (bottom_y a) :: rat) \<le> 2 ^ 20"
    by simp_all
  with line_pos_bounds [OF assms(1) j] x assms(3) show ?thesis by simp
qed

text \<open>
  A move that passes its guard takes the accumulator from near one line to near the
  next, with at most \<open>2\<^sup>-\<^sup>2\<^sup>6\<close> more of rounding error.
\<close>

lemma move_down_near:
  assumes sc: "screen_sized a" and nl: "near_line eps j a" and eps: "eps < 1 / 2"
    and g: "arrow_y a < bottom_y a"
  shows "\<exists>a1. move_down a = (Inr (), a1) \<and> near_line (eps + 1 / 2 ^ 26) (j + 1) a1 \<and>
           screen_sized a1 \<and> top_y a1 = top_y a \<and> bottom_y a1 = bottom_y a \<and>
           num_lines a1 = num_lines a"
proof -
  from nl obtain x where fv: "finite_value (y_with_decimal a) = Some x"
    and x: "\<bar>x - line_pos a j\<bar> \<le> eps" and j: "0 \<le> j" "j \<le> num_lines a"
    by (rule near_lineD)
  have "j \<noteq> num_lines a"
  proof
    assume "j = num_lines a"
    with near_last_line [OF sc _ eps] nl g show False by simp
  qed
  with j have j1: "0 \<le> j + 1" "j + 1 \<le> num_lines a" by simp_all
  from move_down_finite [OF g fv _ _ near_line_magnitude [OF sc nl eps fv] screen_step(2) [OF sc]]
  obtain x' where m: "move_down a =
      (Inr (), a\<lparr>y_with_decimal := PyFloat (Finite x'), arrow_y := round_half_even x'\<rparr>)"
    and e: "\<bar>x' - (x + movement_distance a)\<bar> \<le> 5 * (2 ^ 22 / 2 ^ 52)" by auto
  let ?a1 = "a\<lparr>y_with_decimal := PyFloat (Finite x'), arrow_y := round_half_even x'\<rparr>"
  have lp: "line_pos ?a1 (j + 1) = line_pos a (j + 1)" by (simp add: line_pos_def)
  from move_error [OF e x screen_step(1) [OF sc]]
  have "\<bar>x' - line_pos a (j + 1)\<bar> \<le> eps + 1 / 2 ^ 26"
    by (simp only: line_pos_step)
  with j1 have "near_line (eps + 1 / 2 ^ 26) (j + 1) ?a1"
    by (simp add: near_line_def finite_value_def lp)
  moreover from sc have "screen_sized ?a1" by (simp add: screen_sized_def)
  ultimately show ?thesis using m by simp
qed




subsection \<open>Evaluating one move\<close>

lemma number_add_int:
  assumes "\<bar>z\<bar> \<le> 2 ^ 62" and "nearest_double (of_int z) = u" and "\<bar>u + f\<bar> \<le> 2 ^ 64"
    and "nearest_double (u + f) = x'"
  shows "number_add (PyInt z) f = Inr (Finite x')"
proof -
  from assms(1) have "\<bar>z\<bar> \<le> 2 ^ 64" by simp
  from float_of_int_small [OF this] float_add_small [OF assms(3)] assms(2,4)
  show ?thesis by (simp add: number_add_def)
qed

lemma number_add_float:
  assumes "\<bar>x + f\<bar> \<le> 2 ^ 64" and "nearest_double (x + f) = x'"
  shows "number_add (PyFloat (Finite x)) f = Inr (Finite x')"
  using float_add_small [OF assms(1)] assms(2) by (simp add: number_add_def)

lemma move_down_eval:
  assumes "arrow_y a < bottom_y a"
    and "number_add (y_with_decimal a) (movement_distance a) = Inr (Finite x')"
  shows "move_down a =
           (Inr (), a\<lparr>y_with_decimal := PyFloat (Finite x'), arrow_y := round_half_even x'\<rparr>)"
  using assms by (simp add: move_down_def py_round_def)


subsection \<open>Bounds and rounding of the position\<close>

text \<open>
  C6. On an arrow whose rounded position equals \<^verbatim>\<open>_top_y\<close>, \<^verbatim>\<open>move_up\<close> returns and
  changes no field: neither the rounded position nor the accumulator nor any other.
\<close>

theorem move_up_at_top_noop: "arrow_y a = top_y a \<Longrightarrow> move_up a = (Inr (), a)"
  by (simp add: move_up_def)

theorem move_up_at_top_noop_witness:
  "arrow_y \<lparr>arrow_x = 10, arrow_y = 887, top_y = 887, bottom_y = 1255, num_lines = 12,
            y_with_decimal = PyInt 887,
            movement_distance = 8631899285793451 / 281474976710656\<rparr>
     = top_y \<lparr>arrow_x = 10, arrow_y = 887, top_y = 887, bottom_y = 1255, num_lines = 12,
              y_with_decimal = PyInt 887,
              movement_distance = 8631899285793451 / 281474976710656\<rparr> \<and>
   move_up \<lparr>arrow_x = 10, arrow_y = 887, top_y = 887, bottom_y = 1255, num_lines = 12,
            y_with_decimal = PyInt 887,
            movement_distance = 8631899285793451 / 281474976710656\<rparr>
     = (Inr (),
        \<lparr>arrow_x = 10, arrow_y = 887, top_y = 887, bottom_y = 1255, num_lines = 12,
         y_with_decimal = PyInt 887,
         movement_distance = 8631899285793451 / 281474976710656\<rparr>)"
  using move_up_at_top_noop
    [of "\<lparr>arrow_x = 10, arrow_y = 887, top_y = 887, bottom_y = 1255, num_lines = 12,
          y_with_decimal = PyInt 887,
          movement_distance = 8631899285793451 / 281474976710656\<rparr>"]
  by simp

text \<open>The arrow of \<^verbatim>\<open>main\<close>'s span, placed at its top, and the same after one move down.\<close>

lemma main_span_step: "int_true_div (1255 - 887) 12 = Inr (8631899285793451 / 281474976710656)"
proof -
  have "nearest_double (368 / 12) = 8631899285793451 / 281474976710656" by code_simp
  then show ?thesis by (simp add: int_true_div_small)
qed

lemma main_span_first_move:
  "move_down \<lparr>arrow_x = 10, arrow_y = 887, top_y = 887, bottom_y = 1255, num_lines = 12,
              y_with_decimal = PyInt 887,
              movement_distance = 8631899285793451 / 281474976710656\<rparr>
     = (Inr (),
        \<lparr>arrow_x = 10, arrow_y = 918, top_y = 887, bottom_y = 1255, num_lines = 12,
         y_with_decimal = PyFloat (Finite (8071881363379541 / 8796093022208)),
         movement_distance = 8631899285793451 / 281474976710656\<rparr>)"
proof -
  let ?a = "\<lparr>arrow_x = 10, arrow_y = 887, top_y = 887, bottom_y = 1255, num_lines = 12,
              y_with_decimal = PyInt 887,
              movement_distance = 8631899285793451 / 281474976710656\<rparr>"
  have c: "nearest_double (of_int 887) = 887" by code_simp
  have s: "nearest_double (887 + 8631899285793451 / 281474976710656)
             = 8071881363379541 / 8796093022208" by code_simp
  have r: "round_half_even (8071881363379541 / 8796093022208) = 918" by code_simp
  have "number_add (PyInt 887) (8631899285793451 / 281474976710656)
          = Inr (Finite (8071881363379541 / 8796093022208))"
    by (rule number_add_int [OF _ c _ s]) simp_all
  then have "number_add (y_with_decimal ?a) (movement_distance ?a)
          = Inr (Finite (8071881363379541 / 8796093022208))" by simp
  from move_down_eval [OF _ this] show ?thesis by (simp add: r)
qed

text \<open>
  C9. After construction with an integer initial position the rounded position is the
  rounding of the accumulator; each of \<^verbatim>\<open>move_up\<close>, \<^verbatim>\<open>move_down\<close>, \<^verbatim>\<open>toggle_left\<close>
  and \<^verbatim>\<open>toggle_right\<close> that returns keeps that; so it holds after every sequence of
  calls on a constructed arrow that returns.
\<close>

theorem rounded_is_round_of_accumulator:
  "(Arrow_init x0 y0 t b n = Inr a \<longrightarrow>
      py_round (y_with_decimal a) = Inr (arrow_y a) \<and>
      (calls cs a = (Inr (), a2) \<longrightarrow> py_round (y_with_decimal a2) = Inr (arrow_y a2))) \<and>
   (py_round (y_with_decimal a1) = Inr (arrow_y a1) \<longrightarrow>
      (move_up a1 = (Inr (), u) \<longrightarrow> py_round (y_with_decimal u) = Inr (arrow_y u)) \<and>
      (move_down a1 = (Inr (), d) \<longrightarrow> py_round (y_with_decimal d) = Inr (arrow_y d)) \<and>
      py_round (y_with_decimal (toggle_left a1)) = Inr (arrow_y (toggle_left a1)) \<and>
      py_round (y_with_decimal (toggle_right a1)) = Inr (arrow_y (toggle_right a1)))"
proof -
  have init: "py_round (y_with_decimal a) = Inr (arrow_y a)" if "Arrow_init x0 y0 t b n = Inr a"
    using that by (auto simp: Arrow_init_def py_round_def split: sum.splits)
  have step: "py_round (y_with_decimal a') = Inr (arrow_y a')"
    if "py_round (y_with_decimal a1) = Inr (arrow_y a1)" and "call c a1 = (Inr (), a')" for c a'
    using that(2,1) by (rule call_rounded)
  show ?thesis
    using init calls_rounded [of cs a a2] step [of MoveUp u] step [of MoveDown d]
      step [of ToggleLeft "toggle_left a1"] step [of ToggleRight "toggle_right a1"]
    by simp
qed

theorem rounded_is_round_of_accumulator_witness:
  "Arrow_init 10 887 887 1255 12
     = Inr \<lparr>arrow_x = 10, arrow_y = 887, top_y = 887, bottom_y = 1255, num_lines = 12,
            y_with_decimal = PyInt 887,
            movement_distance = 8631899285793451 / 281474976710656\<rparr> \<and>
   calls [MoveUp, MoveDown, ToggleRight]
       \<lparr>arrow_x = 10, arrow_y = 887, top_y = 887, bottom_y = 1255, num_lines = 12,
        y_with_decimal = PyInt 887,
        movement_distance = 8631899285793451 / 281474976710656\<rparr>
     = (Inr (),
        \<lparr>arrow_x = 410, arrow_y = 918, top_y = 887, bottom_y = 1255, num_lines = 12,
         y_with_decimal = PyFloat (Finite (8071881363379541 / 8796093022208)),
         movement_distance = 8631899285793451 / 281474976710656\<rparr>) \<and>
   py_round (PyFloat (Finite (8071881363379541 / 8796093022208))) = Inr 918 \<and>
   py_round (PyInt 887) = Inr 887"
proof -
  let ?s = "8631899285793451 / 281474976710656 :: rat"
  let ?a = "\<lparr>arrow_x = 10, arrow_y = 887, top_y = 887, bottom_y = 1255, num_lines = 12,
            y_with_decimal = PyInt 887, movement_distance = ?s\<rparr>"
  let ?d = "\<lparr>arrow_x = 10, arrow_y = 918, top_y = 887, bottom_y = 1255, num_lines = 12,
         y_with_decimal = PyFloat (Finite (8071881363379541 / 8796093022208)),
         movement_distance = ?s\<rparr>"
  let ?a2 = "\<lparr>arrow_x = 410, arrow_y = 918, top_y = 887, bottom_y = 1255, num_lines = 12,
         y_with_decimal = PyFloat (Finite (8071881363379541 / 8796093022208)),
         movement_distance = ?s\<rparr>"
  have i: "Arrow_init 10 887 887 1255 12 = Inr ?a"
    using main_span_step by (simp add: Arrow_init_def)
  have u: "move_up ?a = (Inr (), ?a)" by (simp add: move_up_def)
  have c: "calls [MoveUp, MoveDown, ToggleRight] ?a = (Inr (), ?a2)"
    by (simp add: u main_span_first_move toggle_right_def)
  from rounded_is_round_of_accumulator
    [of 10 887 887 1255 12 ?a "[MoveUp, MoveDown, ToggleRight]" ?a2 ?a ?a ?d]
    i c u main_span_first_move
  show ?thesis by simp
qed

text \<open>
  C10. Construction with \<^verbatim>\<open>num_lines\<close> zero raises \<^verbatim>\<open>ZeroDivisionError\<close> and yields no
  arrow. With \<^verbatim>\<open>num_lines\<close> different from zero that error is not raised: the arrow is
  built with the step \<open>(bottom_y - top_y) / num_lines\<close> rounded to a \<^verbatim>\<open>float\<close>, unless
  that quotient is beyond the range of \<^verbatim>\<open>float\<close>, when the division raises
  \<^verbatim>\<open>OverflowError\<close>.
\<close>

theorem Arrow_init_needs_lines:
  "(n = 0 \<longrightarrow> Arrow_init x0 y0 t b n = Inl ZeroDivisionError) \<and>
   (n \<noteq> 0 \<longrightarrow>
      Arrow_init x0 y0 t b n \<noteq> Inl ZeroDivisionError \<and>
      (if overflows (of_int (b - t) / of_int n)
       then Arrow_init x0 y0 t b n = Inl OverflowError
       else \<exists>a. Arrow_init x0 y0 t b n = Inr a \<and>
              movement_distance a = nearest_double (of_int (b - t) / of_int n)))"
  by (simp add: Arrow_init_def int_true_div_def)

theorem Arrow_init_needs_lines_witness:
  "Arrow_init 10 506 887 1255 0 = Inl ZeroDivisionError \<and>
   Arrow_init 10 506 887 1255 12 \<noteq> Inl ZeroDivisionError \<and>
   (\<exists>a. Arrow_init 10 506 887 1255 12 = Inr a \<and>
        movement_distance a = 8631899285793451 / 281474976710656)"
proof -
  have v: "nearest_double (368 / 12) = 8631899285793451 / 281474976710656" by code_simp
  have o: "\<not> overflows (368 / 12)" by (rule not_overflows_small) simp
  from Arrow_init_needs_lines [of 0 10 506 887 1255]
    Arrow_init_needs_lines [of 12 10 506 887 1255] v o
  show ?thesis by auto
qed


text \<open>
  A start inside the span is not enough either: from a position half-way between two
  lines a move can pass the bottom.
\<close>

lemma start_between_lines_passes_bottom:
  "calls [MoveDown, MoveDown]
      \<lparr>arrow_x = 0, arrow_y = 1, top_y = 0, bottom_y = 3, num_lines = 2,
       y_with_decimal = PyInt 1, movement_distance = 3 / 2\<rparr>
     = (Inr (),
        \<lparr>arrow_x = 0, arrow_y = 4, top_y = 0, bottom_y = 3, num_lines = 2,
         y_with_decimal = PyFloat (Finite 4), movement_distance = 3 / 2\<rparr>)"
proof -
  let ?a = "\<lparr>arrow_x = 0, arrow_y = 1, top_y = 0, bottom_y = 3, num_lines = 2,
       y_with_decimal = PyInt 1, movement_distance = 3 / 2\<rparr>"
  let ?b = "\<lparr>arrow_x = 0, arrow_y = 2, top_y = 0, bottom_y = 3, num_lines = 2,
       y_with_decimal = PyFloat (Finite (5 / 2)), movement_distance = 3 / 2\<rparr>"
  have c: "nearest_double (of_int 1) = 1" by code_simp
  have s1: "nearest_double (1 + 3 / 2) = 5 / 2" by code_simp
  have s2: "nearest_double (5 / 2 + 3 / 2) = 4" by code_simp
  have r1: "round_half_even (5 / 2) = 2" by code_simp
  have r2: "round_half_even 4 = 4" by code_simp
  have "number_add (PyInt 1) (3 / 2) = Inr (Finite (5 / 2))"
    by (rule number_add_int [OF _ c _ s1]) simp_all
  then have "number_add (y_with_decimal ?a) (movement_distance ?a) = Inr (Finite (5 / 2))"
    by simp
  from move_down_eval [OF _ this] have m1: "move_down ?a = (Inr (), ?b)" by (simp add: r1)
  have "number_add (PyFloat (Finite (5 / 2))) (3 / 2) = Inr (Finite 4)"
    by (rule number_add_float [OF _ s2]) simp
  then have "number_add (y_with_decimal ?b) (movement_distance ?b) = Inr (Finite 4)"
    by simp
  from move_down_eval [OF _ this] have m2: "move_down ?b =
      (Inr (), \<lparr>arrow_x = 0, arrow_y = 4, top_y = 0, bottom_y = 3, num_lines = 2,
         y_with_decimal = PyFloat (Finite 4), movement_distance = 3 / 2\<rparr>)"
    by (simp add: r2)
  show ?thesis by (simp add: m1 m2)
qed

text \<open>
  Nor is a start on a line enough when the bounds are not \<^verbatim>\<open>float\<close>s: over the span
  from 0 to \<open>2\<^sup>5\<^sup>3 + 1\<close> with one line, the arrow started at the top stands at
  \<open>2\<^sup>5\<^sup>3\<close> after one \<^verbatim>\<open>move_down\<close>, still above the bottom, and at \<open>2\<^sup>5\<^sup>4\<close> after
  the second.
\<close>

lemma large_span_passes_bottom:
  "calls [MoveDown, MoveDown]
      \<lparr>arrow_x = 0, arrow_y = 0, top_y = 0, bottom_y = 9007199254740993, num_lines = 1,
       y_with_decimal = PyInt 0, movement_distance = 9007199254740992\<rparr>
     = (Inr (),
        \<lparr>arrow_x = 0, arrow_y = 18014398509481984, top_y = 0, bottom_y = 9007199254740993,
         num_lines = 1, y_with_decimal = PyFloat (Finite 18014398509481984),
         movement_distance = 9007199254740992\<rparr>)"
proof -
  let ?a = "\<lparr>arrow_x = 0, arrow_y = 0, top_y = 0, bottom_y = 9007199254740993, num_lines = 1,
       y_with_decimal = PyInt 0, movement_distance = 9007199254740992\<rparr>"
  let ?b = "\<lparr>arrow_x = 0, arrow_y = 9007199254740992, top_y = 0, bottom_y = 9007199254740993,
       num_lines = 1, y_with_decimal = PyFloat (Finite 9007199254740992),
       movement_distance = 9007199254740992\<rparr>"
  have c: "nearest_double (of_int 0) = 0" by (simp add: nearest_double_def)
  have s1: "nearest_double (0 + 9007199254740992) = 9007199254740992" by code_simp
  have s2: "nearest_double (9007199254740992 + 9007199254740992) = 18014398509481984"
    by code_simp
  have r1: "round_half_even 9007199254740992 = 9007199254740992" by code_simp
  have r2: "round_half_even 18014398509481984 = 18014398509481984" by code_simp
  have "number_add (PyInt 0) 9007199254740992 = Inr (Finite 9007199254740992)"
    by (rule number_add_int [OF _ c _ s1]) simp_all
  then have "number_add (y_with_decimal ?a) (movement_distance ?a)
      = Inr (Finite 9007199254740992)" by simp
  from move_down_eval [OF _ this] have m1: "move_down ?a = (Inr (), ?b)" by (simp add: r1)
  have "number_add (PyFloat (Finite 9007199254740992)) 9007199254740992
      = Inr (Finite 18014398509481984)"
    by (rule number_add_float [OF _ s2]) simp
  then have "number_add (y_with_decimal ?b) (movement_distance ?b)
      = Inr (Finite 18014398509481984)" by simp
  from move_down_eval [OF _ this] have m2: "move_down ?b =
      (Inr (), \<lparr>arrow_x = 0, arrow_y = 18014398509481984, top_y = 0,
         bottom_y = 9007199254740993,
         num_lines = 1, y_with_decimal = PyFloat (Finite 18014398509481984),
         movement_distance = 9007199254740992\<rparr>)"
    by (simp add: r2)
  show ?thesis by (simp add: m1 m2)
qed



text \<open>
  C4, as stated, fails for a bottom that is not a \<^verbatim>\<open>float\<close>: over the span from 0 to
  \<open>2\<^sup>5\<^sup>3 + 1\<close> with one line, the step is rounded to \<open>2\<^sup>5\<^sup>3\<close>, and after the one
  \<^verbatim>\<open>move_down\<close> the arrow stands at \<open>2\<^sup>5\<^sup>3\<close>, one short of the bottom.
\<close>

theorem large_span_misses_bottom:
  "Arrow_init 0 0 0 9007199254740993 1
     = Inr \<lparr>arrow_x = 0, arrow_y = 0, top_y = 0, bottom_y = 9007199254740993, num_lines = 1,
            y_with_decimal = PyInt 0, movement_distance = 9007199254740992\<rparr> \<and>
   calls (replicate (nat 1) MoveDown)
       \<lparr>arrow_x = 0, arrow_y = 0, top_y = 0, bottom_y = 9007199254740993, num_lines = 1,
        y_with_decimal = PyInt 0, movement_distance = 9007199254740992\<rparr>
     = (Inr (),
        \<lparr>arrow_x = 0, arrow_y = 9007199254740992, top_y = 0, bottom_y = 9007199254740993,
         num_lines = 1, y_with_decimal = PyFloat (Finite 9007199254740992),
         movement_distance = 9007199254740992\<rparr>) \<and>
   arrow_y \<lparr>arrow_x = 0, arrow_y = 9007199254740992, top_y = 0, bottom_y = 9007199254740993,
         num_lines = 1, y_with_decimal = PyFloat (Finite 9007199254740992),
         movement_distance = 9007199254740992\<rparr>
     \<noteq> bottom_y \<lparr>arrow_x = 0, arrow_y = 9007199254740992, top_y = 0,
         bottom_y = 9007199254740993,
         num_lines = 1, y_with_decimal = PyFloat (Finite 9007199254740992),
         movement_distance = 9007199254740992\<rparr>"
proof -
  let ?a = "\<lparr>arrow_x = 0, arrow_y = 0, top_y = 0, bottom_y = 9007199254740993, num_lines = 1,
            y_with_decimal = PyInt 0, movement_distance = 9007199254740992\<rparr>"
  have q: "nearest_double (9007199254740993 / 1) = 9007199254740992" by code_simp
  have i: "Arrow_init 0 0 0 9007199254740993 1 = Inr ?a"
    using q by (simp add: Arrow_init_def int_true_div_small)
  have c: "nearest_double (of_int 0) = 0" by (simp add: nearest_double_def)
  have s: "nearest_double (0 + 9007199254740992) = 9007199254740992" by code_simp
  have r: "round_half_even 9007199254740992 = 9007199254740992" by code_simp
  have "number_add (PyInt 0) 9007199254740992 = Inr (Finite 9007199254740992)"
    by (rule number_add_int [OF _ c _ s]) simp_all
  then have "number_add (y_with_decimal ?a) (movement_distance ?a)
      = Inr (Finite 9007199254740992)" by simp
  from move_down_eval [OF _ this] have m: "move_down ?a =
      (Inr (), \<lparr>arrow_x = 0, arrow_y = 9007199254740992, top_y = 0,
         bottom_y = 9007199254740993,
         num_lines = 1, y_with_decimal = PyFloat (Finite 9007199254740992),
         movement_distance = 9007199254740992\<rparr>)"
    by (simp add: r)
  show ?thesis by (simp add: i m)
qed

text \<open>
  After \<open>j\<close> calls of \<^verbatim>\<open>move_down\<close> from the top, \<open>j\<close> at most the line count, the
  arrow either has reached the bottom or stands near line \<open>j\<close>.
\<close>

lemma move_down_from_top:
  assumes sc: "screen_sized a" and top: "near_line 0 0 a"
    and n: "num_lines a \<le> 2 ^ 20" and j: "int j \<le> num_lines a"
  shows "\<exists>a1. calls (replicate j MoveDown) a = (Inr (), a1) \<and> screen_sized a1 \<and>
           top_y a1 = top_y a \<and> bottom_y a1 = bottom_y a \<and> num_lines a1 = num_lines a \<and>
           (arrow_y a1 = bottom_y a \<or> near_line (of_nat j / 2 ^ 26) (int j) a1)"
  using j
proof (induction j)
  case 0
  with sc top show ?case by simp
next
  case (Suc j)
  then obtain a1 where c: "calls (replicate j MoveDown) a = (Inr (), a1)"
    and sc1: "screen_sized a1"
    and fr: "top_y a1 = top_y a" "bottom_y a1 = bottom_y a" "num_lines a1 = num_lines a"
    and st: "arrow_y a1 = bottom_y a \<or> near_line (of_nat j / 2 ^ 26) (int j) a1"
    by auto
  have snoc: "replicate (Suc j) MoveDown = replicate j MoveDown @ [MoveDown]"
    by (simp add: replicate_append_same)
  have run: "calls (replicate (Suc j) MoveDown) a = calls [MoveDown] a1"
    unfolding snoc using c by (rule calls_append)
  from Suc.prems n have "int j \<le> 2 ^ 20" by simp
  then have "j \<le> 2 ^ 20" by (simp add: le_nat_iff [symmetric] nat_power_eq)
  then have "(of_nat j :: rat) \<le> of_nat (2 ^ 20)" by (simp only: of_nat_le_iff)
  then have "(of_nat j :: rat) / 2 ^ 26 \<le> 1 / 64" by simp
  then have eps: "(of_nat j :: rat) / 2 ^ 26 < 1 / 2" by linarith
  have next_eps: "(of_nat j :: rat) / 2 ^ 26 + 1 / 2 ^ 26 = of_nat (Suc j) / 2 ^ 26"
    by (simp add: field_simps)
  have "\<exists>a2. calls [MoveDown] a1 = (Inr (), a2) \<and> screen_sized a2 \<and>
           top_y a2 = top_y a \<and> bottom_y a2 = bottom_y a \<and> num_lines a2 = num_lines a \<and>
           (arrow_y a2 = bottom_y a \<or> near_line (of_nat (Suc j) / 2 ^ 26) (int (Suc j)) a2)"
  proof (cases "arrow_y a1 < bottom_y a1")
    case False
    have "arrow_y a1 = bottom_y a"
    proof (rule disjE [OF st])
      assume "near_line (of_nat j / 2 ^ 26) (int j) a1"
      from near_line_in_span(2) [OF sc1 this eps] False fr show ?thesis by simp
    qed
    moreover from False have "move_down a1 = (Inr (), a1)" by (simp add: move_down_def)
    ultimately show ?thesis using sc1 fr by simp
  next
    case True
    with st fr have nl: "near_line (of_nat j / 2 ^ 26) (int j) a1" by auto
    from move_down_near [OF sc1 nl eps True] obtain a2
      where m: "move_down a1 = (Inr (), a2)"
        and nl2: "near_line (of_nat j / 2 ^ 26 + 1 / 2 ^ 26) (int j + 1) a2"
        and sc2: "screen_sized a2"
        and fr2: "top_y a2 = top_y a1" "bottom_y a2 = bottom_y a1" "num_lines a2 = num_lines a1"
      by blast
    from nl2 have "near_line (of_nat (Suc j) / 2 ^ 26) (int (Suc j)) a2"
      by (simp only: next_eps) (simp add: add.commute)
    with m sc2 fr fr2 show ?thesis by simp
  qed
  then show ?case by (simp only: run)
qed

text \<open>
  C4, amended. For an arrow over a span with the top not below the bottom, both
  bounds at most \<open>2\<^sup>2\<^sup>0\<close> in magnitude, between 1 and \<open>2\<^sup>2\<^sup>0\<close> lines and the step of
  \<^verbatim>\<open>__init__\<close>, whose rounded position and accumulator start at the top: exactly
  \<^verbatim>\<open>num_lines\<close> calls of \<^verbatim>\<open>move_down\<close> return, and after them the rounded position
  equals \<^verbatim>\<open>bottom_y\<close>.
\<close>

theorem move_down_reaches_bottom:
  assumes "top_y a \<le> bottom_y a" and "0 < num_lines a" and "num_lines a \<le> 2 ^ 20"
    and "\<bar>top_y a\<bar> \<le> 2 ^ 20" and "\<bar>bottom_y a\<bar> \<le> 2 ^ 20"
    and "int_true_div (bottom_y a - top_y a) (num_lines a) = Inr (movement_distance a)"
    and "arrow_y a = top_y a" and "finite_value (y_with_decimal a) = Some (of_int (top_y a))"
  shows "\<exists>a1. calls (replicate (nat (num_lines a)) MoveDown) a = (Inr (), a1) \<and>
           arrow_y a1 = bottom_y a"
proof -
  from assms(1,2,4-6) have sc: "screen_sized a" by (simp add: screen_sized_def)
  from assms(2,7,8) have top: "near_line 0 0 a"
    by (simp add: near_line_def line_pos_def round_half_even_of_int)
  from assms(2) have n: "int (nat (num_lines a)) = num_lines a" by simp
  from move_down_from_top [OF sc top assms(3), of "nat (num_lines a)"] n
  obtain a1 where c: "calls (replicate (nat (num_lines a)) MoveDown) a = (Inr (), a1)"
    and sc1: "screen_sized a1"
    and fr: "bottom_y a1 = bottom_y a" "num_lines a1 = num_lines a"
    and st: "arrow_y a1 = bottom_y a \<or>
             near_line (of_nat (nat (num_lines a)) / 2 ^ 26) (num_lines a) a1"
    by auto
  from assms(3) have "nat (num_lines a) \<le> 2 ^ 20"
    by (simp add: nat_le_iff)
  then have "(of_nat (nat (num_lines a)) :: rat) \<le> of_nat (2 ^ 20)" by (simp only: of_nat_le_iff)
  then have "(of_nat (nat (num_lines a)) :: rat) / 2 ^ 26 \<le> 1 / 64" by simp
  then have eps: "(of_nat (nat (num_lines a)) :: rat) / 2 ^ 26 < 1 / 2" by linarith
  have "arrow_y a1 = bottom_y a"
  proof (rule disjE [OF st])
    assume "near_line (of_nat (nat (num_lines a)) / 2 ^ 26) (num_lines a) a1"
    then have "near_line (of_nat (nat (num_lines a)) / 2 ^ 26) (num_lines a1) a1"
      by (simp only: fr)
    from near_last_line [OF sc1 this eps] fr show ?thesis by simp
  qed
  with c show ?thesis by blast
qed

theorem move_down_reaches_bottom_witness:
  "int_true_div (10 - 0) 2 = Inr 5 \<and>
   calls (replicate (nat 2) MoveDown)
       \<lparr>arrow_x = 10, arrow_y = 0, top_y = 0, bottom_y = 10, num_lines = 2,
        y_with_decimal = PyInt 0, movement_distance = 5\<rparr>
     = (Inr (),
        \<lparr>arrow_x = 10, arrow_y = 10, top_y = 0, bottom_y = 10, num_lines = 2,
         y_with_decimal = PyFloat (Finite 10), movement_distance = 5\<rparr>) \<and>
   (\<exists>a1. calls (replicate (nat 2) MoveDown)
            \<lparr>arrow_x = 10, arrow_y = 0, top_y = 0, bottom_y = 10, num_lines = 2,
             y_with_decimal = PyInt 0, movement_distance = 5\<rparr> = (Inr (), a1) \<and>
         arrow_y a1 = 10)"
proof -
  let ?a = "\<lparr>arrow_x = 10, arrow_y = 0, top_y = 0, bottom_y = 10, num_lines = 2,
        y_with_decimal = PyInt 0, movement_distance = 5\<rparr>"
  let ?b = "\<lparr>arrow_x = 10, arrow_y = 5, top_y = 0, bottom_y = 10, num_lines = 2,
        y_with_decimal = PyFloat (Finite 5), movement_distance = 5\<rparr>"
  let ?c = "\<lparr>arrow_x = 10, arrow_y = 10, top_y = 0, bottom_y = 10, num_lines = 2,
        y_with_decimal = PyFloat (Finite 10), movement_distance = 5\<rparr>"
  have q: "nearest_double 5 = 5" by code_simp
  have "int_true_div 10 2 = Inr (nearest_double (of_int 10 / of_int 2))"
    by (rule int_true_div_small) simp_all
  then have d: "int_true_div 10 2 = Inr 5" using q by simp
  have c0: "nearest_double (of_int 0) = 0" by (simp add: nearest_double_def)
  have s1: "nearest_double (0 + 5) = 5" by code_simp
  have s2: "nearest_double (5 + 5) = 10" by code_simp
  have r1: "round_half_even 5 = 5" by code_simp
  have r2: "round_half_even 10 = 10" by code_simp
  have "number_add (PyInt 0) 5 = Inr (Finite 5)"
    by (rule number_add_int [OF _ c0 _ s1]) simp_all
  then have "number_add (y_with_decimal ?a) (movement_distance ?a) = Inr (Finite 5)" by simp
  from move_down_eval [OF _ this] have m1: "move_down ?a = (Inr (), ?b)" by (simp add: r1)
  have "number_add (PyFloat (Finite 5)) 5 = Inr (Finite 10)"
    by (rule number_add_float [OF _ s2]) simp
  then have "number_add (y_with_decimal ?b) (movement_distance ?b) = Inr (Finite 10)" by simp
  from move_down_eval [OF _ this] have m2: "move_down ?b = (Inr (), ?c)" by (simp add: r2)
  have two: "replicate (nat 2) MoveDown = [MoveDown, MoveDown]"
    by (simp add: numeral_2_eq_2)
  have e: "calls (replicate (nat 2) MoveDown) ?a = (Inr (), ?c)"
    by (simp only: two) (simp add: m1 m2)
  have "\<exists>a1. calls (replicate (nat (num_lines ?a)) MoveDown) ?a = (Inr (), a1) \<and>
           arrow_y a1 = bottom_y ?a"
    by (rule move_down_reaches_bottom) (simp_all add: d finite_value_def)
  then have "\<exists>a1. calls (replicate (nat 2) MoveDown) ?a = (Inr (), a1) \<and> arrow_y a1 = 10"
    by simp
  with d e show ?thesis by simp
qed


text \<open>
  Also when no call is stopped, the rounded position need not come back exactly. The
  arrow over the span from 0 to 15 with 14 lines stands at 7 after seven moves down,
  its accumulator just below \<open>7.5\<close>.
\<close>

lemma seven_moves_down:
  "Arrow_init 0 0 0 15 14
     = Inr \<lparr>arrow_x = 0, arrow_y = 0, top_y = 0, bottom_y = 15, num_lines = 14,
       y_with_decimal = PyInt 0,
       movement_distance = 4825285315039817 / 4503599627370496\<rparr> \<and>
   calls (replicate 7 MoveDown)
      \<lparr>arrow_x = 0, arrow_y = 0, top_y = 0, bottom_y = 15, num_lines = 14,
       y_with_decimal = PyInt 0,
       movement_distance = 4825285315039817 / 4503599627370496\<rparr>
     = (Inr (),
        \<lparr>arrow_x = 0, arrow_y = 7, top_y = 0, bottom_y = 15, num_lines = 14,
       y_with_decimal = PyFloat (Finite (8444249301319679 / 1125899906842624)),
       movement_distance = 4825285315039817 / 4503599627370496\<rparr>)"
proof -
  let ?s = "4825285315039817 / 4503599627370496 :: rat"
  let ?a0 = "\<lparr>arrow_x = 0, arrow_y = 0, top_y = 0, bottom_y = 15, num_lines = 14,
       y_with_decimal = PyInt 0,
       movement_distance = ?s\<rparr>"
  let ?a1 = "\<lparr>arrow_x = 0, arrow_y = 1, top_y = 0, bottom_y = 15, num_lines = 14,
       y_with_decimal = PyFloat (Finite (4825285315039817 / 4503599627370496)),
       movement_distance = ?s\<rparr>"
  let ?a2 = "\<lparr>arrow_x = 0, arrow_y = 2, top_y = 0, bottom_y = 15, num_lines = 14,
       y_with_decimal = PyFloat (Finite (4825285315039817 / 2251799813685248)),
       movement_distance = ?s\<rparr>"
  let ?a3 = "\<lparr>arrow_x = 0, arrow_y = 3, top_y = 0, bottom_y = 15, num_lines = 14,
       y_with_decimal = PyFloat (Finite (3618963986279863 / 1125899906842624)),
       movement_distance = ?s\<rparr>"
  let ?a4 = "\<lparr>arrow_x = 0, arrow_y = 4, top_y = 0, bottom_y = 15, num_lines = 14,
       y_with_decimal = PyFloat (Finite (4825285315039817 / 1125899906842624)),
       movement_distance = ?s\<rparr>"
  let ?a5 = "\<lparr>arrow_x = 0, arrow_y = 5, top_y = 0, bottom_y = 15, num_lines = 14,
       y_with_decimal = PyFloat (Finite (6031606643799771 / 1125899906842624)),
       movement_distance = ?s\<rparr>"
  let ?a6 = "\<lparr>arrow_x = 0, arrow_y = 6, top_y = 0, bottom_y = 15, num_lines = 14,
       y_with_decimal = PyFloat (Finite (7237927972559725 / 1125899906842624)),
       movement_distance = ?s\<rparr>"
  let ?a7 = "\<lparr>arrow_x = 0, arrow_y = 7, top_y = 0, bottom_y = 15, num_lines = 14,
       y_with_decimal = PyFloat (Finite (8444249301319679 / 1125899906842624)),
       movement_distance = ?s\<rparr>"
  have q: "nearest_double (15 / 14) = ?s" by code_simp
  have "int_true_div 15 14 = Inr (nearest_double (of_int 15 / of_int 14))"
    by (rule int_true_div_small) simp_all
  then have i: "Arrow_init 0 0 0 15 14 = Inr ?a0" using q by (simp add: Arrow_init_def)
  have c0: "nearest_double (of_int 0) = 0" by (simp add: nearest_double_def)
  have s1: "nearest_double (0 + ?s) = 4825285315039817 / 4503599627370496" by code_simp
  have r1: "round_half_even (4825285315039817 / 4503599627370496) = 1" by code_simp
  have "number_add (PyInt 0) ?s = Inr (Finite (4825285315039817 / 4503599627370496))"
    by (rule number_add_int [OF _ c0 _ s1]) simp_all
  then have "number_add (y_with_decimal ?a0) (movement_distance ?a0) = Inr (Finite (4825285315039817 / 4503599627370496))"
    by simp
  from move_down_eval [OF _ this] have m1: "move_down ?a0 = (Inr (), ?a1)" by (simp add: r1)
  have s2: "nearest_double (4825285315039817 / 4503599627370496 + ?s) = 4825285315039817 / 2251799813685248" by code_simp
  have r2: "round_half_even (4825285315039817 / 2251799813685248) = 2" by code_simp
  have "number_add (PyFloat (Finite (4825285315039817 / 4503599627370496))) ?s = Inr (Finite (4825285315039817 / 2251799813685248))"
    by (rule number_add_float [OF _ s2]) simp
  then have "number_add (y_with_decimal ?a1) (movement_distance ?a1) = Inr (Finite (4825285315039817 / 2251799813685248))"
    by simp
  from move_down_eval [OF _ this] have m2: "move_down ?a1 = (Inr (), ?a2)" by (simp add: r2)
  have s3: "nearest_double (4825285315039817 / 2251799813685248 + ?s) = 3618963986279863 / 1125899906842624" by code_simp
  have r3: "round_half_even (3618963986279863 / 1125899906842624) = 3" by code_simp
  have "number_add (PyFloat (Finite (4825285315039817 / 2251799813685248))) ?s = Inr (Finite (3618963986279863 / 1125899906842624))"
    by (rule number_add_float [OF _ s3]) simp
  then have "number_add (y_with_decimal ?a2) (movement_distance ?a2) = Inr (Finite (3618963986279863 / 1125899906842624))"
    by simp
  from move_down_eval [OF _ this] have m3: "move_down ?a2 = (Inr (), ?a3)" by (simp add: r3)
  have s4: "nearest_double (3618963986279863 / 1125899906842624 + ?s) = 4825285315039817 / 1125899906842624" by code_simp
  have r4: "round_half_even (4825285315039817 / 1125899906842624) = 4" by code_simp
  have "number_add (PyFloat (Finite (3618963986279863 / 1125899906842624))) ?s = Inr (Finite (4825285315039817 / 1125899906842624))"
    by (rule number_add_float [OF _ s4]) simp
  then have "number_add (y_with_decimal ?a3) (movement_distance ?a3) = Inr (Finite (4825285315039817 / 1125899906842624))"
    by simp
  from move_down_eval [OF _ this] have m4: "move_down ?a3 = (Inr (), ?a4)" by (simp add: r4)
  have s5: "nearest_double (4825285315039817 / 1125899906842624 + ?s) = 6031606643799771 / 1125899906842624" by code_simp
  have r5: "round_half_even (6031606643799771 / 1125899906842624) = 5" by code_simp
  have "number_add (PyFloat (Finite (4825285315039817 / 1125899906842624))) ?s = Inr (Finite (6031606643799771 / 1125899906842624))"
    by (rule number_add_float [OF _ s5]) simp
  then have "number_add (y_with_decimal ?a4) (movement_distance ?a4) = Inr (Finite (6031606643799771 / 1125899906842624))"
    by simp
  from move_down_eval [OF _ this] have m5: "move_down ?a4 = (Inr (), ?a5)" by (simp add: r5)
  have s6: "nearest_double (6031606643799771 / 1125899906842624 + ?s) = 7237927972559725 / 1125899906842624" by code_simp
  have r6: "round_half_even (7237927972559725 / 1125899906842624) = 6" by code_simp
  have "number_add (PyFloat (Finite (6031606643799771 / 1125899906842624))) ?s = Inr (Finite (7237927972559725 / 1125899906842624))"
    by (rule number_add_float [OF _ s6]) simp
  then have "number_add (y_with_decimal ?a5) (movement_distance ?a5) = Inr (Finite (7237927972559725 / 1125899906842624))"
    by simp
  from move_down_eval [OF _ this] have m6: "move_down ?a5 = (Inr (), ?a6)" by (simp add: r6)
  have s7: "nearest_double (7237927972559725 / 1125899906842624 + ?s) = 8444249301319679 / 1125899906842624" by code_simp
  have r7: "round_half_even (8444249301319679 / 1125899906842624) = 7" by code_simp
  have "number_add (PyFloat (Finite (7237927972559725 / 1125899906842624))) ?s = Inr (Finite (8444249301319679 / 1125899906842624))"
    by (rule number_add_float [OF _ s7]) simp
  then have "number_add (y_with_decimal ?a6) (movement_distance ?a6) = Inr (Finite (8444249301319679 / 1125899906842624))"
    by simp
  from move_down_eval [OF _ this] have m7: "move_down ?a6 = (Inr (), ?a7)" by (simp add: r7)
  have seven: "replicate 7 MoveDown
      = [MoveDown, MoveDown, MoveDown, MoveDown, MoveDown, MoveDown, MoveDown]"
    by (simp add: numeral_eq_Suc)
  have "calls (replicate 7 MoveDown) ?a0 = (Inr (), ?a7)"
    by (simp only: seven) (simp add: m1 m2 m3 m4 m5 m6 m7)
  with i show ?thesis by simp
qed









end
